theory Spec2Isabelle
  imports Complex_Main "HOL-Library.Multiset" "HOL-Library.State_Monad"
begin

section \<open>The Boltzmann wealth model of the Mesa tutorials\<close>

text \<open>
  The notebook \<^verbatim>\<open>docs/tutorials/8_comparing_scenarios.ipynb\<close> defines the function
  \<^verbatim>\<open>compute_gini\<close> and the classes \<^verbatim>\<open>MoneyAgent\<close> and \<^verbatim>\<open>MoneyModel\<close>. Python integers are
  modelled by \<^typ>\<open>int\<close>. The true division \<^verbatim>\<open>/\<close> of two Python integers is modelled by
  exact division on \<^typ>\<open>real\<close>: the rounding of binary floating point is not part of
  this model, the raising of \<^verbatim>\<open>ZeroDivisionError\<close> on a zero divisor is.
\<close>

subsection \<open>Data\<close>

datatype py_error = ZeroDivisionError

type_synonym cell = "nat \<times> nat"

text \<open>
  A \<^verbatim>\<open>MoneyAgent\<close> has the attributes \<^verbatim>\<open>cell\<close>, \<^verbatim>\<open>wealth\<close> and \<^verbatim>\<open>steps_not_given\<close>.
  Agents are objects that \<^verbatim>\<open>give_money\<close> mutates through references; the store of
  agent objects is the list \<open>agents\<close> of the model, in the iteration order of the
  model's agent set, and an agent's identity is its index in that list.
\<close>

record agent =
  cell :: cell
  wealth :: int
  steps_not_given :: int

text \<open>
  A \<^verbatim>\<open>MoneyModel\<close> has the attribute \<^verbatim>\<open>num_agents\<close> (the constructor's argument \<^verbatim>\<open>n\<close>) and
  its agent set. The field \<open>gini_log\<close> is the series that the data collector keeps for
  its model reporter \<^verbatim>\<open>"Gini"\<close>.
\<close>

record model =
  num_agents :: int
  agents :: "agent list"
  gini_log :: "real list"

subsection \<open>\<^verbatim>\<open>compute_gini\<close>\<close>

text \<open>
  \<^verbatim>\<open>
  def compute_gini(model):
      agent_wealths = [agent.wealth for agent in model.agents]
      x = sorted(agent_wealths)
      n = model.num_agents
      B = sum(xi * (n - i) for i, xi in enumerate(x)) / (n * sum(x))
      return 1 + (1 / n) - 2 * B
  \<close>
  Both divisions raise \<^verbatim>\<open>ZeroDivisionError\<close> when their divisor is zero; the one of
  \<^verbatim>\<open>B\<close> is evaluated first. Note that \<^verbatim>\<open>n\<close> is read from the model, not from the length
  of the list.
\<close>

definition py_truediv :: "int \<Rightarrow> int \<Rightarrow> py_error + real" where
  "py_truediv a b = (if b = 0 then Inl ZeroDivisionError else Inr (real_of_int a / real_of_int b))"

definition weighted_sum :: "int \<Rightarrow> int list \<Rightarrow> int" where
  "weighted_sum n x = sum_list (map (\<lambda>(i, xi). xi * (n - int i)) (enumerate 0 x))"

text \<open>The value bound to \<^verbatim>\<open>B\<close>.\<close>

definition gini_B :: "int \<Rightarrow> int list \<Rightarrow> py_error + real" where
  "gini_B n x = py_truediv (weighted_sum n x) (n * sum_list x)"

definition compute_gini :: "model \<Rightarrow> py_error + real" where
  "compute_gini m =
     (let agent_wealths = map wealth (agents m);
          x = sort agent_wealths;
          n = num_agents m
      in case gini_B n x of
           Inl e \<Rightarrow> Inl e
         | Inr B \<Rightarrow>
             (case py_truediv 1 n of
                Inl e \<Rightarrow> Inl e
              | Inr r \<Rightarrow> Inr (1 + r - 2 * B)))"

text \<open>
  The same five lines once more, now as a computation on the state of the program,
  so that an effect of the call on the model or on an agent would show in the state
  it returns. The state is the model with its agent objects. Reading
  \<^verbatim>\<open>model.agents\<close> and each \<^verbatim>\<open>agent.wealth\<close>, and reading \<^verbatim>\<open>model.num_agents\<close>, are
  accesses to the state. The comprehension builds a new list of integers and
  \<^verbatim>\<open>sorted\<close> returns a new list, so \<^verbatim>\<open>agent_wealths\<close>, \<^verbatim>\<open>x\<close>, \<^verbatim>\<open>n\<close> and \<^verbatim>\<open>B\<close> are local
  values. The body assigns to no attribute, so no state is written; a \<^verbatim>\<open>raise\<close>
  ends the call with the state as it is at that point.
\<close>

definition compute_gini_exec :: "(model, py_error + real) state" where
  "compute_gini_exec = do {
     s1 \<leftarrow> State_Monad.get;
     let agent_wealths = map wealth (agents s1);
     let x = sort agent_wealths;
     s2 \<leftarrow> State_Monad.get;
     let n = num_agents s2;
     case gini_B n x of
       Inl e \<Rightarrow> State_Monad.return (Inl e)
     | Inr B \<Rightarrow>
         (case py_truediv 1 n of
            Inl e \<Rightarrow> State_Monad.return (Inl e)
          | Inr r \<Rightarrow> State_Monad.return (Inr (1 + r - 2 * B)))
   }"

subsection \<open>\<^verbatim>\<open>MoneyAgent\<close>\<close>

text \<open>Assignment to attributes of the agent object at index \<open>i\<close> of the store.\<close>

definition update_agent :: "nat \<Rightarrow> (agent \<Rightarrow> agent) \<Rightarrow> model \<Rightarrow> model" where
  "update_agent i f m = m\<lparr>agents := (agents m)[i := f (agents m ! i)]\<rparr>"

text \<open>
  \<^verbatim>\<open>
  def move(self):
      self.cell = self.cell.neighborhood.select_random_cell()
  \<close>
  The grid and its random selection belong to the framework; the cell that
  \<^verbatim>\<open>select_random_cell\<close> returns is the parameter \<open>c\<close>. The grid is built with
  \<^verbatim>\<open>capacity=10\<close>, and the framework's assignment to \<^verbatim>\<open>cell\<close> raises (cell is full)
  when the cell already holds that many agents. This exception is not modelled:
  \<open>move\<close> is the assignment alone. It changes no wealth, and a step in which it is
  raised does not complete; the statements below are about steps and runs that
  complete, and none of them says that a step or a run completes.
\<close>

definition move :: "nat \<Rightarrow> cell \<Rightarrow> model \<Rightarrow> model" where
  "move self c m = update_agent self (\<lambda>a. a\<lparr>cell := c\<rparr>) m"

text \<open>
  Modelled from the spec: the attribute \<^verbatim>\<open>agents\<close> of a cell is the framework's spatial
  query and is not part of the notebook. It is taken to be the agents whose \<^verbatim>\<open>cell\<close>
  attribute is that cell, in the order of the agent set.
\<close>

definition cell_agents :: "model \<Rightarrow> cell \<Rightarrow> nat list" where
  "cell_agents m c = filter (\<lambda>j. cell (agents m ! j) = c) [0..<length (agents m)]"

text \<open>
  \<^verbatim>\<open>random.choice(seq)\<close> of the Python library returns \<^verbatim>\<open>seq[k]\<close> for a random index
  \<open>k\<close> below the length; the random draw is the parameter \<open>r\<close>, reduced modulo the
  length. It is only called on a non-empty list.
\<close>

definition choice :: "nat \<Rightarrow> 'a list \<Rightarrow> 'a" where
  "choice r seq = seq ! (r mod length seq)"

text \<open>
  \<^verbatim>\<open>
  def give_money(self):
      cellmates = [a for a in self.cell.agents if a is not self]

      if len(cellmates) > 0 and self.wealth > 0:
          other = self.random.choice(cellmates)
          other.wealth += 1
          self.wealth -= 1
          self.steps_not_given = 0
      else:
          self.steps_not_given += 1
  \<close>
\<close>

definition cellmates :: "model \<Rightarrow> nat \<Rightarrow> nat list" where
  "cellmates m self = filter (\<lambda>a. a \<noteq> self) (cell_agents m (cell (agents m ! self)))"

definition give_money :: "nat \<Rightarrow> nat \<Rightarrow> model \<Rightarrow> model" where
  "give_money self r m =
     (if length (cellmates m self) > 0 \<and> wealth (agents m ! self) > 0 then
        let other = choice r (cellmates m self);
            m1 = update_agent other (\<lambda>a. a\<lparr>wealth := wealth a + 1\<rparr>) m;
            m2 = update_agent self (\<lambda>a. a\<lparr>wealth := wealth a - 1\<rparr>) m1
        in update_agent self (\<lambda>a. a\<lparr>steps_not_given := 0\<rparr>) m2
      else update_agent self (\<lambda>a. a\<lparr>steps_not_given := steps_not_given a + 1\<rparr>) m)"

subsection \<open>\<^verbatim>\<open>MoneyModel\<close>\<close>

text \<open>
  \<^verbatim>\<open>
  def __init__(self, n, width, height, seed=None):
      super().__init__(seed=seed)
      self.num_agents = n
      self.grid = OrthogonalMooreGrid((width, height), torus=True, capacity=10, random=self.random)
      self.datacollector = mesa.DataCollector(
          model_reporters={"Gini": compute_gini},
          agent_reporters={"Wealth": "wealth", "Steps_not_given": "steps_not_given"})
      self.running = True
      agents = MoneyAgent.create_agents(
          self, self.num_agents,
          self.random.choices(self.grid.all_cells.cells, k=self.num_agents))
  \<close>
  The constructor of \<^verbatim>\<open>MoneyAgent\<close> sets \<^verbatim>\<open>wealth = 1\<close> and \<^verbatim>\<open>steps_not_given = 0\<close>.
\<close>

definition MoneyAgent :: "cell \<Rightarrow> agent" where
  "MoneyAgent c = \<lparr>cell = c, wealth = 1, steps_not_given = 0\<rparr>"

text \<open>
  Modelled from the spec: \<^verbatim>\<open>create_agents\<close> is the framework's agent creation and is not
  part of the notebook. It is taken to call \<^verbatim>\<open>MoneyAgent(model, cell)\<close> once for each
  \<open>i\<close> in \<^verbatim>\<open>range(n)\<close>, with the \<open>i\<close>-th of the randomly chosen cells, which are the
  parameter \<open>cells\<close>. The grid, with its width, height and the capacity of its
  cells, is framework code and is not modelled. Where the program places more
  than 10 agents in one cell the constructor raises (cell is full) and there is
  no model; \<open>MoneyModel\<close> has no such case, so it also describes models that the
  program cannot create. The statements below hold for every model it describes.
\<close>

definition MoneyModel :: "int \<Rightarrow> (nat \<Rightarrow> cell) \<Rightarrow> model" where
  "MoneyModel n cells =
     \<lparr>num_agents = n, agents = map (\<lambda>i. MoneyAgent (cells i)) [0..<nat n], gini_log = []\<rparr>"

text \<open>
  \<^verbatim>\<open>
  def step(self):
      self.datacollector.collect(self)
      self.agents.shuffle_do("move")
      self.agents.do("give_money")
  \<close>
  The random choices of one step are a record: the order of the shuffle, the cell
  each agent moves to and the draw of each agent's \<^verbatim>\<open>random.choice\<close>.
\<close>

record rand =
  shuffle_order :: "nat list"
  move_dest :: "nat \<Rightarrow> cell"
  give_draw :: "nat \<Rightarrow> nat"

text \<open>
  Modelled from the spec: the data collector's \<^verbatim>\<open>collect\<close> is framework code and is not
  part of the notebook. It is taken to call the model reporter registered under
  \<^verbatim>\<open>"Gini"\<close>, which is \<^verbatim>\<open>compute_gini(model)\<close>, and to append the result to its series; an
  exception of the reporter leaves \<^verbatim>\<open>step\<close> before any agent has acted. The agent
  reporters read the attributes \<^verbatim>\<open>wealth\<close> and \<^verbatim>\<open>steps_not_given\<close>; their tables are
  not modelled.
\<close>

definition collect :: "model \<Rightarrow> py_error + model" where
  "collect m =
     (case compute_gini m of
        Inl e \<Rightarrow> Inl e
      | Inr g \<Rightarrow> Inr (m\<lparr>gini_log := gini_log m @ [g]\<rparr>))"

text \<open>
  Modelled from the spec: \<^verbatim>\<open>shuffle_do\<close> and \<^verbatim>\<open>do\<close> of the agent set are the framework's
  agent activation and are not part of the notebook. They are taken to call the
  named method on the agents one after the other: \<^verbatim>\<open>shuffle_do\<close> in a random order,
  which is the parameter \<open>shuffle_order\<close>, and \<^verbatim>\<open>do\<close> once on each agent in the order
  of the agent set.
\<close>

definition shuffle_do_move :: "rand \<Rightarrow> model \<Rightarrow> model" where
  "shuffle_do_move rnd m = fold (\<lambda>i. move i (move_dest rnd i)) (shuffle_order rnd) m"

definition do_give_money :: "rand \<Rightarrow> model \<Rightarrow> model" where
  "do_give_money rnd m =
     fold (\<lambda>i. give_money i (give_draw rnd i)) [0..<length (agents m)] m"

definition step :: "rand \<Rightarrow> model \<Rightarrow> py_error + model" where
  "step rnd m =
     (case collect m of
        Inl e \<Rightarrow> Inl e
      | Inr m1 \<Rightarrow> Inr (do_give_money rnd (shuffle_do_move rnd m1)))"

text \<open>A run of the simulation: \<^verbatim>\<open>model.step()\<close> once for each element of the list of
  random choices, until a step raises.\<close>

fun run :: "model \<Rightarrow> rand list \<Rightarrow> py_error + model" where
  "run m [] = Inr m"
| "run m (rnd # rnds) =
     (case step rnd m of
        Inl e \<Rightarrow> Inl e
      | Inr m' \<Rightarrow> run m' rnds)"

subsection \<open>The specification's wording\<close>

text \<open>
  The metric as the specification words it, on a sequence of wealth values: with \<open>n\<close>
  the length and \<open>S\<close> the sum, sort ascending into \<open>x\<close>, let \<open>B\<close> be the sum of
  \<open>x[i] * (n - i)\<close> divided by \<open>n * S\<close>, and return \<open>1 + 1/n - 2 * B\<close>.
\<close>

definition spec_B :: "int list \<Rightarrow> real" where
  "spec_B ws =
     (let x = sort ws; n = length ws; S = sum_list ws
      in real_of_int (\<Sum>i\<leftarrow>[0..<n]. x ! i * (int n - int i)) / (real n * real_of_int S))"

definition spec_gini :: "int list \<Rightarrow> real" where
  "spec_gini ws = 1 + 1 / real (length ws) - 2 * spec_B ws"

text \<open>The wealth snapshot of a model, and when a model is a population as the
  specification describes its input.\<close>

definition wealths :: "model \<Rightarrow> int list" where
  "wealths m = map wealth (agents m)"

definition total_wealth :: "model \<Rightarrow> int" where
  "total_wealth m = sum_list (wealths m)"

definition population :: "model \<Rightarrow> bool" where
  "population m \<longleftrightarrow>
     agents m \<noteq> [] \<and> num_agents m = int (length (agents m)) \<and>
     list_all (\<lambda>a. 0 \<le> wealth a) (agents m)"

definition nonneg_wealth :: "model \<Rightarrow> bool" where
  "nonneg_wealth m \<longleftrightarrow> list_all (\<lambda>a. 0 \<le> wealth a) (agents m)"

text \<open>
  Inputs for the statements below: the model whose agents hold the given wealth
  values (all in one cell), and a model with every wealth multiplied by \<open>c\<close>.
\<close>

definition snapshot :: "int list \<Rightarrow> model" where
  "snapshot ws =
     \<lparr>num_agents = int (length ws),
      agents = map (\<lambda>w. \<lparr>cell = (0, 0), wealth = w, steps_not_given = 0\<rparr>) ws,
      gini_log = []\<rparr>"

definition scale_wealth :: "int \<Rightarrow> model \<Rightarrow> model" where
  "scale_wealth c m = m\<lparr>agents := map (\<lambda>a. a\<lparr>wealth := c * wealth a\<rparr>) (agents m)\<rparr>"

text \<open>The random choices of one step, and the model that a newly created model of
  three agents reaches with them.\<close>

definition example_rand :: rand where
  "example_rand =
     \<lparr>shuffle_order = [2, 0, 1], move_dest = (\<lambda>i. (0, 0)),
      give_draw = (\<lambda>i. if i = 0 then 0 else 1)\<rparr>"

definition example_final :: model where
  "example_final =
     \<lparr>num_agents = 3,
      agents = [\<lparr>cell = (0, 0), wealth = 0, steps_not_given = 0\<rparr>,
                \<lparr>cell = (0, 0), wealth = 2, steps_not_given = 0\<rparr>,
                \<lparr>cell = (0, 0), wealth = 1, steps_not_given = 0\<rparr>],
      gini_log = [0]\<rparr>"

text \<open>Random choices that move the three agents into three different cells, and the
  model reached with them: no agent has a cellmate, so nobody gives.\<close>

definition example_rand_apart :: rand where
  "example_rand_apart =
     \<lparr>shuffle_order = [1, 2, 0], move_dest = (\<lambda>i. (i, 0)), give_draw = (\<lambda>i. 0)\<rparr>"

definition example_final_apart :: model where
  "example_final_apart =
     \<lparr>num_agents = 3,
      agents = [\<lparr>cell = (0, 0), wealth = 1, steps_not_given = 1\<rparr>,
                \<lparr>cell = (1, 0), wealth = 1, steps_not_given = 1\<rparr>,
                \<lparr>cell = (2, 0), wealth = 1, steps_not_given = 1\<rparr>],
      gini_log = [0]\<rparr>"

section \<open>Properties of \<^verbatim>\<open>compute_gini\<close>\<close>

subsection \<open>Auxiliary facts\<close>

lemma weighted_sum_nth:
  "weighted_sum n x = (\<Sum>i\<leftarrow>[0..<length x]. x ! i * (n - int i))"
proof -
  have "map (\<lambda>(i, xi). xi * (n - int i)) (enumerate 0 x) =
        map (\<lambda>i. x ! i * (n - int i)) [0..<length x]"
    by (rule nth_equalityI) (simp_all add: nth_enumerate_eq)
  then show ?thesis by (simp add: weighted_sum_def)
qed

lemma compute_gini_value:
  assumes "num_agents m \<noteq> 0" and "total_wealth m \<noteq> 0"
  shows "compute_gini m =
           Inr (1 + 1 / real_of_int (num_agents m)
                - 2 * (real_of_int (weighted_sum (num_agents m) (sort (wealths m)))
                       / real_of_int (num_agents m * total_wealth m)))"
proof -
  have "sum_list (sort (map wealth (agents m))) = total_wealth m"
    by (metis mset_sort sum_mset_sum_list total_wealth_def wealths_def)
  with assms show ?thesis
    by (simp add: compute_gini_def gini_B_def py_truediv_def wealths_def Let_def)
qed

lemma wealths_snapshot: "wealths (snapshot ws) = ws"
  by (simp add: wealths_def snapshot_def comp_def)

lemma sort_cong_mset: "mset xs = mset ys \<Longrightarrow> sort xs = sort (ys :: int list)"
  by (metis sorted_list_of_multiset_mset)

lemma compute_gini_wealths:
  "compute_gini m =
     (case gini_B (num_agents m) (sort (wealths m)) of
        Inl e \<Rightarrow> Inl e
      | Inr B \<Rightarrow> (case py_truediv 1 (num_agents m) of
                    Inl e \<Rightarrow> Inl e
                  | Inr r \<Rightarrow> Inr (1 + r - 2 * B)))"
  by (simp add: compute_gini_def wealths_def Let_def)

lemma sum_upt_descending: "2 * (\<Sum>i\<leftarrow>[0..<k]. int k - int i) = int k * (int k + 1)"
proof -
  have "2 * (\<Sum>i\<leftarrow>[0..<j]. int k - int i) = int j * (2 * int k - int j + 1)" for j
    by (induction j) (simp_all add: algebra_simps)
  from this [of k] show ?thesis by (simp add: algebra_simps)
qed

lemma weighted_sum_all_equal:
  assumes "\<forall>v\<in>set x. v = w"
  shows "2 * weighted_sum (int (length x)) x = w * (int (length x) * (int (length x) + 1))"
proof -
  have "weighted_sum (int (length x)) x = (\<Sum>i\<leftarrow>[0..<length x]. w * (int (length x) - int i))"
    unfolding weighted_sum_nth using assms
    by (intro arg_cong [where f = sum_list] map_cong refl) simp
  also have "\<dots> = w * (\<Sum>i\<leftarrow>[0..<length x]. int (length x) - int i)"
    by (simp add: sum_list_const_mult)
  finally show ?thesis using sum_upt_descending [of "length x"] by simp
qed

lemma gini_all_equal:
  assumes "population m" and "0 < w" and "\<forall>a\<in>set (agents m). wealth a = w"
  shows "compute_gini m = Inr 0"
proof -
  define n where "n = length (agents m)"
  have n: "num_agents m = int n" "0 < n" "length (wealths m) = n"
    using assms(1) by (simp_all add: population_def n_def wealths_def)
  have all: "\<forall>v\<in>set (sort (wealths m)). v = w"
    using assms(3) by (auto simp: wealths_def)
  have S: "total_wealth m = w * int n"
  proof -
    have "wealths m = replicate n w"
      using assms(3) by (simp add: wealths_def n_def map_replicate_const [symmetric] cong: map_cong)
    then show ?thesis by (simp add: total_wealth_def sum_list_replicate mult.commute)
  qed
  have W: "2 * weighted_sum (int n) (sort (wealths m)) = w * (int n * (int n + 1))"
    using weighted_sum_all_equal [OF all] n(3) by simp
  have "real_of_int (2 * weighted_sum (int n) (sort (wealths m))) = real_of_int (w * (int n * (int n + 1)))"
    using W by simp
  then have W': "2 * real_of_int (weighted_sum (int n) (sort (wealths m))) = real_of_int w * (real n * (real n + 1))"
    by simp
  have nz: "num_agents m \<noteq> 0" "total_wealth m \<noteq> 0"
    using n assms(2) S by simp_all
  have "1 + 1 / real n - 2 * (real_of_int (weighted_sum (int n) (sort (wealths m))) / (real n * (real_of_int w * real n))) = 0"
    using W' n(2) assms(2) by (simp add: field_simps)
  then show ?thesis
    using compute_gini_value [OF nz] by (simp add: n(1) S mult.commute)
qed

lemma gini_zero_total:
  assumes "total_wealth m = 0"
  shows "compute_gini m = Inl ZeroDivisionError"
proof -
  have "sum_list (sort (wealths m)) = 0"
    using assms by (metis mset_sort sum_mset_sum_list total_wealth_def)
  then show ?thesis
    by (simp add: compute_gini_wealths gini_B_def py_truediv_def)
qed

lemma weighted_sum_lower:
  assumes "\<forall>v\<in>set x. 0 \<le> v"
  shows "sum_list x \<le> weighted_sum (int (length x)) x"
proof -
  have "sum_list x = (\<Sum>i\<leftarrow>[0..<length x]. x ! i)"
    by (simp add: map_nth)
  also have "\<dots> \<le> (\<Sum>i\<leftarrow>[0..<length x]. x ! i * (int (length x) - int i))"
  proof (rule sum_list_mono)
    fix i assume "i \<in> set [0..<length x]"
    then have "i < length x" by simp
    then have "0 \<le> x ! i" "1 \<le> int (length x) - int i"
      using assms by simp_all
    then show "x ! i \<le> x ! i * (int (length x) - int i)"
      by (simp add: mult_le_cancel_left1)
  qed
  finally show ?thesis by (simp add: weighted_sum_nth)
qed

lemma weighted_sum_upper:
  assumes "sorted x"
  shows "2 * weighted_sum (int (length x)) x \<le> sum_list x * (int (length x) + 1)"
proof -
  define n where "n = length x"
  have sums: "(\<Sum>i\<leftarrow>[0..<n]. f i) = (\<Sum>k = 0..<n. f k)" for f :: "nat \<Rightarrow> int"
    by (simp add: interv_sum_list_conv_sum_set_nat)
  have "int n * (\<Sum>k = 0..<n. x ! k * (int n - int k))
          \<le> (\<Sum>k = 0..<n. x ! k) * (\<Sum>k = 0..<n. int n - int k)"
  proof (rule Chebyshev_sum_upper)
    fix i j assume "i \<le> j" "j < n"
    then show "x ! i \<le> x ! j"
      using assms by (simp add: n_def sorted_nth_mono)
  next
    fix i j :: nat assume "i \<le> j" "j < n"
    then show "int n - int j \<le> int n - int i" by simp
  qed
  then have "int n * weighted_sum (int n) x \<le> sum_list x * (\<Sum>i\<leftarrow>[0..<n]. int n - int i)"
    by (simp add: weighted_sum_nth sums n_def [symmetric] sum_list_sum_nth atLeast0LessThan)
  then have "2 * (int n * weighted_sum (int n) x) \<le> sum_list x * (2 * (\<Sum>i\<leftarrow>[0..<n]. int n - int i))"
    by simp
  then have "int n * (2 * weighted_sum (int n) x) \<le> sum_list x * (int n * (int n + 1))"
    by (simp only: sum_upt_descending mult.left_commute)
  then have "int n * (2 * weighted_sum (int n) x) \<le> int n * (sum_list x * (int n + 1))"
    by (simp add: algebra_simps)
  then show ?thesis
  proof (cases "n = 0")
    case True
    then show ?thesis by (simp add: n_def weighted_sum_def)
  next
    case False
    with \<open>int n * (2 * weighted_sum (int n) x) \<le> int n * (sum_list x * (int n + 1))\<close>
    show ?thesis by (simp add: n_def)
  qed
qed

lemma gini_bounds:
  assumes "population m" and "0 < total_wealth m"
  shows "\<exists>g. compute_gini m = Inr g \<and> 0 \<le> g \<and> g \<le> 1 - 1 / real_of_int (num_agents m)"
proof -
  define n where "n = length (agents m)"
  define x where "x = sort (wealths m)"
  define W where "W = weighted_sum (int n) x"
  define S where "S = total_wealth m"
  have n: "num_agents m = int n" "0 < n" "length x = n"
    using assms(1) by (simp_all add: population_def n_def wealths_def x_def)
  have sum_x: "sum_list x = S"
    unfolding x_def S_def total_wealth_def by (metis mset_sort sum_mset_sum_list)
  have "\<forall>v\<in>set x. 0 \<le> v"
    using assms(1) by (auto simp: population_def x_def wealths_def list_all_iff)
  then have lower: "S \<le> W"
    using weighted_sum_lower [of x] by (simp add: n(3) sum_x W_def)
  have "sorted x" by (simp add: x_def)
  then have upper: "2 * W \<le> S * (int n + 1)"
    using weighted_sum_upper [of x] by (simp add: n(3) sum_x W_def)
  have pos: "0 < real n * real_of_int S" and nz: "real n \<noteq> 0" "real_of_int S \<noteq> 0"
    using n(2) assms(2) by (simp_all add: S_def)
  define g where "g = 1 + 1 / real n - 2 * (real_of_int W / (real n * real_of_int S))"
  have g_eq: "g = real_of_int (S * (int n + 1) - 2 * W) / (real n * real_of_int S)"
    using nz by (simp add: g_def field_simps)
  have g_eq': "g - (1 - 1 / real n) = real_of_int (2 * S - 2 * W) / (real n * real_of_int S)"
    using nz by (simp add: g_def field_simps)
  have "0 \<le> real_of_int (S * (int n + 1) - 2 * W)"
    using upper by (simp only: of_int_0_le_iff diff_ge_0_iff_ge)
  then have "0 \<le> g"
    unfolding g_eq using pos by (rule divide_nonneg_pos)
  moreover have "real_of_int (2 * S - 2 * W) \<le> 0"
    using lower by (simp only: of_int_le_0_iff)
  then have "g - (1 - 1 / real n) \<le> 0"
    unfolding g_eq' using pos by (rule divide_nonpos_pos)
  moreover have "compute_gini m = Inr g"
    using compute_gini_value [of m] assms(2) n(1,2)
    by (simp add: g_def W_def x_def S_def)
  ultimately show ?thesis by (simp add: n(1))
qed

lemma sum_list_upt_cong:
  assumes "\<And>i. i < n \<Longrightarrow> f i = g i"
  shows "(\<Sum>i\<leftarrow>[0..<n]. f i) = (\<Sum>i\<leftarrow>[0..<n]. (g i :: int))"
  using assms by (intro arg_cong [where f = sum_list]) simp

lemma weighted_sum_snoc:
  "weighted_sum n (xs @ [y]) = weighted_sum n xs + y * (n - int (length xs))"
proof -
  have "(\<Sum>i\<leftarrow>[0..<length xs]. (xs @ [y]) ! i * (n - int i))
        = (\<Sum>i\<leftarrow>[0..<length xs]. xs ! i * (n - int i))"
    by (rule sum_list_upt_cong) (simp add: nth_append)
  then show ?thesis by (simp add: weighted_sum_nth)
qed

lemma weighted_sum_zeros: "weighted_sum n (replicate k 0) = 0"
proof -
  have "(\<Sum>i\<leftarrow>[0..<k]. replicate k 0 ! i * (n - int i)) = (\<Sum>i\<leftarrow>[0..<k]. 0)"
    by (rule sum_list_upt_cong) simp
  then show ?thesis by (simp add: weighted_sum_nth)
qed

lemma sort_concentrated:
  assumes "0 \<le> S"
  shows "sort (replicate i 0 @ S # replicate j 0) = replicate (i + j) (0::int) @ [S]"
proof (rule properties_for_sort)
  show "mset (replicate (i + j) (0::int) @ [S]) = mset (replicate i 0 @ S # replicate j 0)"
    by (simp add: replicate_add)
  show "sorted (replicate (i + j) (0::int) @ [S])"
    using assms by (simp add: sorted_append)
qed

lemma gini_concentrated:
  assumes "population m" and "0 < S" and "wealths m = replicate i 0 @ S # replicate j 0"
  shows "compute_gini m = Inr (1 - 1 / real_of_int (num_agents m))"
proof -
  define N where "N = num_agents m"
  have N: "N = int (i + j) + 1"
    using assms(1) arg_cong [OF assms(3), of length]
    by (simp add: population_def wealths_def N_def)
  have S: "total_wealth m = S"
    by (simp add: total_wealth_def assms(3) sum_list_replicate)
  have x: "sort (wealths m) = replicate (i + j) 0 @ [S]"
    using assms(2) by (simp add: assms(3) sort_concentrated)
  have W: "weighted_sum N (sort (wealths m)) = S"
    by (simp add: x weighted_sum_snoc weighted_sum_zeros N)
  have nz: "real_of_int N \<noteq> 0" "real_of_int S \<noteq> 0"
    using N assms(2) by simp_all
  have nzs: "num_agents m \<noteq> 0" "total_wealth m \<noteq> 0"
    using N S assms(2) by (simp_all add: N_def)
  have "1 + 1 / real_of_int N - 2 * (real_of_int S / real_of_int (N * S))
             = 1 - 1 / real_of_int N"
    using nz by (simp add: field_simps)
  then show ?thesis
    by (simp only: compute_gini_value [OF nzs] W [unfolded N_def] S N_def)
qed

lemma wealths_scale: "wealths (scale_wealth c m) = map ((*) c) (wealths m)"
  by (simp add: wealths_def scale_wealth_def comp_def)

lemma sort_scale:
  assumes "0 < c"
  shows "sort (map ((*) c) xs) = map ((*) c) (sort (xs :: int list))"
proof (rule properties_for_sort)
  show "mset (map ((*) c) (sort xs)) = mset (map ((*) c) xs)" by simp
  have "sorted_wrt (\<lambda>x y. c * x \<le> c * y) (sort xs)"
    by (rule sorted_wrt_mono_rel [of _ "(\<le>)"]) (use assms in simp_all)
  then show "sorted (map ((*) c) (sort xs))"
    by (simp add: sorted_map)
qed

lemma weighted_sum_scale: "weighted_sum n (map ((*) c) x) = c * weighted_sum n x"
proof -
  have "(\<Sum>i\<leftarrow>[0..<length x]. map ((*) c) x ! i * (n - int i))
        = (\<Sum>i\<leftarrow>[0..<length x]. c * (x ! i * (n - int i)))"
    by (rule sum_list_upt_cong) (simp add: mult.assoc)
  then show ?thesis by (simp add: weighted_sum_nth sum_list_const_mult)
qed

lemma gini_scale:
  assumes "0 < c"
  shows "compute_gini (scale_wealth c m) = compute_gini m"
proof -
  have n: "num_agents (scale_wealth c m) = num_agents m"
    by (simp add: scale_wealth_def)
  have "gini_B (num_agents m) (sort (map ((*) c) (wealths m))) = gini_B (num_agents m) (sort (wealths m))"
    using assms
    by (simp add: gini_B_def py_truediv_def sort_scale [OF assms] weighted_sum_scale
        sum_list_const_mult mult.left_commute [of _ c])
  then show ?thesis
    by (simp add: compute_gini_wealths n wealths_scale split: sum.splits)
qed

lemma population_snapshot:
  "population (snapshot ws) \<longleftrightarrow> ws \<noteq> [] \<and> (\<forall>w\<in>set ws. 0 \<le> w)"
  by (auto simp: population_def snapshot_def list_all_iff)

lemma total_wealth_snapshot: "total_wealth (snapshot ws) = sum_list ws"
  by (simp add: total_wealth_def wealths_snapshot)

lemma num_agents_snapshot: "num_agents (snapshot ws) = int (length ws)"
  by (simp add: snapshot_def)

subsection \<open>The claims about the metric\<close>

text \<open>
  C1. For a non-empty population of non-negative integer wealth values of length \<open>n\<close>
  with sum \<open>S > 0\<close>, \<^verbatim>\<open>compute_gini\<close> returns the value that the specification's algorithm
  describes: the values sorted ascending into \<open>x\<close>, \<open>B\<close> the sum of \<open>x[i] * (n - i)\<close>
  over \<open>n * S\<close>, and the result \<open>1 + 1/n - 2 * B\<close>.
\<close>

theorem compute_gini_refines_spec:
  assumes "population m" and "0 < total_wealth m"
  shows "compute_gini m = Inr (spec_gini (wealths m))"
proof -
  from assms(1) have n: "num_agents m = int (length (wealths m))" and "num_agents m \<noteq> 0"
    by (simp_all add: population_def wealths_def)
  moreover from assms(2) have "total_wealth m \<noteq> 0" by simp
  ultimately have "compute_gini m =
      Inr (1 + 1 / real_of_int (num_agents m)
           - 2 * (real_of_int (weighted_sum (num_agents m) (sort (wealths m)))
                  / real_of_int (num_agents m * total_wealth m)))"
    by (simp add: compute_gini_value)
  also have "\<dots> = Inr (spec_gini (wealths m))"
    by (simp add: spec_gini_def spec_B_def n weighted_sum_nth total_wealth_def Let_def)
  finally show ?thesis .
qed

theorem compute_gini_refines_spec_witness:
  "population (snapshot [2, 0, 1]) \<and> 0 < total_wealth (snapshot [2, 0, 1]) \<and>
   compute_gini (snapshot [2, 0, 1]) = Inr (spec_gini [2, 0, 1]) \<and>
   spec_gini [2, 0, 1] = 4 / 9"
proof -
  have p: "population (snapshot [2, 0, 1])"
    by (simp add: population_snapshot)
  have t: "0 < total_wealth (snapshot [2, 0, 1])"
    by (simp add: total_wealth_snapshot)
  have "spec_gini [2, 0, 1] = 4 / 9"
    by (simp add: spec_gini_def spec_B_def upt_rec)
  with p t compute_gini_refines_spec [OF p t] show ?thesis
    by (simp add: wealths_snapshot)
qed

text \<open>
  C2 as stated: for the population in which every individual holds zero wealth,
  \<^verbatim>\<open>compute_gini\<close> returns the value 0. The function has no guard for a zero total,
  and on two agents of wealth 0 the division raises.
\<close>

theorem compute_gini_all_zero_counterexample:
  "compute_gini (snapshot [0, 0]) = Inl ZeroDivisionError \<and>
   compute_gini (snapshot [0, 0]) \<noteq> Inr 0"
  by (simp add: compute_gini_def snapshot_def gini_B_def py_truediv_def weighted_sum_def)

text \<open>
  C2, amended. For every model in which every agent holds zero wealth,
  \<^verbatim>\<open>compute_gini\<close> raises \<^verbatim>\<open>ZeroDivisionError\<close>; no value is returned.
\<close>

theorem compute_gini_all_zero_raises:
  assumes "\<forall>a\<in>set (agents m). wealth a = 0"
  shows "compute_gini m = Inl ZeroDivisionError"
proof -
  have "wealths m = replicate (length (agents m)) 0"
    using assms by (simp add: wealths_def map_replicate_const [symmetric] cong: map_cong)
  then have "total_wealth m = 0"
    by (simp add: total_wealth_def sum_list_replicate)
  then show ?thesis by (rule gini_zero_total)
qed

theorem compute_gini_all_zero_raises_witness:
  "list_all (\<lambda>a. wealth a = 0) (agents (snapshot [0, 0, 0])) \<and>
   compute_gini (snapshot [0, 0, 0]) = Inl ZeroDivisionError"
proof -
  have h: "\<forall>a\<in>set (agents (snapshot [0, 0, 0])). wealth a = 0"
    by (simp add: snapshot_def)
  from h compute_gini_all_zero_raises [OF h] show ?thesis
    by (simp add: list_all_iff)
qed

text \<open>
  C3. For every non-empty population of non-negative integer wealth values with
  positive total, \<^verbatim>\<open>compute_gini\<close> returns a score in the closed interval from 0 to 1,
  and the score is 0 when all wealth values are equal.
\<close>

theorem compute_gini_in_unit_interval:
  assumes "population m" and "0 < total_wealth m"
  shows "\<exists>g. compute_gini m = Inr g \<and> 0 \<le> g \<and> g \<le> 1 \<and>
             ((\<forall>a\<in>set (agents m). wealth a = wealth (hd (agents m))) \<longrightarrow> g = 0)"
proof -
  from gini_bounds [OF assms] obtain g
    where g: "compute_gini m = Inr g" "0 \<le> g" "g \<le> 1 - 1 / real_of_int (num_agents m)"
    by blast
  have "0 < num_agents m"
    using assms(1) by (simp add: population_def)
  then have "0 \<le> 1 / real_of_int (num_agents m)"
    by simp
  with g(3) have "g \<le> 1"
    by linarith
  moreover have "g = 0" if eq: "\<forall>a\<in>set (agents m). wealth a = wealth (hd (agents m))"
  proof -
    have "0 < wealth (hd (agents m))"
    proof (rule ccontr)
      assume "\<not> 0 < wealth (hd (agents m))"
      moreover have "0 \<le> wealth (hd (agents m))"
        using assms(1) by (simp add: population_def list_all_iff)
      ultimately have "\<forall>a\<in>set (agents m). wealth a = 0"
        using eq by simp
      then have "wealths m = replicate (length (agents m)) 0"
        by (simp add: wealths_def map_replicate_const [symmetric] cong: map_cong)
      then have "total_wealth m = 0"
        by (simp add: total_wealth_def sum_list_replicate)
      with assms(2) show False by simp
    qed
    from gini_all_equal [OF assms(1) this eq] g(1) show ?thesis by simp
  qed
  ultimately show ?thesis using g(1,2) by blast
qed

theorem compute_gini_in_unit_interval_witness:
  "population (snapshot [2, 2, 2]) \<and> 0 < total_wealth (snapshot [2, 2, 2]) \<and>
   list_all (\<lambda>a. wealth a = wealth (hd (agents (snapshot [2, 2, 2])))) (agents (snapshot [2, 2, 2])) \<and>
   compute_gini (snapshot [2, 2, 2]) = Inr 0"
proof -
  have p: "population (snapshot [2, 2, 2])"
    by (simp add: population_snapshot)
  have t: "0 < total_wealth (snapshot [2, 2, 2])"
    by (simp add: total_wealth_snapshot)
  have e: "\<forall>a\<in>set (agents (snapshot [2, 2, 2])). wealth a = wealth (hd (agents (snapshot [2, 2, 2])))"
    by (simp add: snapshot_def)
  from compute_gini_in_unit_interval [OF p t] e have "compute_gini (snapshot [2, 2, 2]) = Inr 0"
    by blast
  with p t e show ?thesis by (simp add: list_all_iff)
qed

text \<open>
  C4. For every population size \<open>n \<ge> 1\<close> and every positive wealth \<open>w\<close>, the population
  in which all \<open>n\<close> individuals hold wealth \<open>w\<close> has score 0; for the wealth values
  \<open>[1,1,1,1]\<close> the value of \<open>B\<close> is \<open>10/16\<close> and the score is 0.
\<close>

theorem compute_gini_equal_wealth:
  "(population m \<and> 0 < w \<and> (\<forall>a\<in>set (agents m). wealth a = w) \<longrightarrow> compute_gini m = Inr 0) \<and>
   (1 \<le> n \<and> 0 < w \<longrightarrow> compute_gini (snapshot (replicate n w)) = Inr 0) \<and>
   gini_B (num_agents (snapshot [1, 1, 1, 1])) (sort (wealths (snapshot [1, 1, 1, 1]))) = Inr (10 / 16) \<and>
   compute_gini (snapshot [1, 1, 1, 1]) = Inr 0"
proof (intro conjI impI)
  assume "population m \<and> 0 < w \<and> (\<forall>a\<in>set (agents m). wealth a = w)"
  then show "compute_gini m = Inr 0"
    using gini_all_equal [of m w] by blast
next
  assume "1 \<le> n \<and> 0 < w"
  moreover from this have "population (snapshot (replicate n w))"
    by (auto simp: population_snapshot)
  moreover have "\<forall>a\<in>set (agents (snapshot (replicate n w))). wealth a = w"
    by (auto simp: snapshot_def)
  ultimately show "compute_gini (snapshot (replicate n w)) = Inr 0"
    using gini_all_equal [of "snapshot (replicate n w)" w] by blast
next
  show "gini_B (num_agents (snapshot [1, 1, 1, 1])) (sort (wealths (snapshot [1, 1, 1, 1]))) = Inr (10 / 16)"
    by (simp add: wealths_snapshot num_agents_snapshot gini_B_def py_truediv_def weighted_sum_def)
next
  show "compute_gini (snapshot [1, 1, 1, 1]) = Inr 0"
    by (simp add: compute_gini_def snapshot_def gini_B_def py_truediv_def weighted_sum_def)
qed

theorem compute_gini_equal_wealth_witness:
  "population (snapshot [3, 3]) \<and> (0::int) < 3 \<and>
   list_all (\<lambda>a. wealth a = 3) (agents (snapshot [3, 3])) \<and> (1::nat) \<le> 5 \<and>
   compute_gini (snapshot [3, 3]) = Inr 0 \<and>
   compute_gini (snapshot (replicate 5 3)) = Inr 0"
proof -
  have p: "population (snapshot [3, 3])"
    by (simp add: population_snapshot)
  have e: "\<forall>a\<in>set (agents (snapshot [3, 3])). wealth a = 3"
    by (simp add: snapshot_def)
  from p e compute_gini_equal_wealth [of "snapshot [3, 3]" 3 5] show ?thesis
    by (simp add: list_all_iff)
qed

text \<open>
  C5. For a population of size \<open>n\<close> in which one individual holds all \<open>S > 0\<close> units and
  the others hold 0, the score is \<open>1 - 1/n = (n - 1)/n\<close> for every \<open>S\<close>, and so it
  approaches \<open>(n - 1)/n\<close> as \<open>S\<close> grows; for the wealth values \<open>[0,0,0,4]\<close> it is \<open>0.75\<close>.
\<close>

theorem compute_gini_concentrated:
  "(population m \<and> 0 < S \<and> wealths m = replicate i 0 @ S # replicate j 0 \<longrightarrow>
      compute_gini m = Inr (1 - 1 / real_of_int (num_agents m)) \<and>
      1 - 1 / real_of_int (num_agents m) = (real_of_int (num_agents m) - 1) / real_of_int (num_agents m)) \<and>
   (\<forall>\<epsilon>>0. \<exists>S0. \<forall>S'\<ge>S0. \<exists>g.
      compute_gini (snapshot (replicate i 0 @ S' # replicate j 0)) = Inr g \<and>
      \<bar>g - real (i + j) / real (i + j + 1)\<bar> < \<epsilon>) \<and>
   compute_gini (snapshot [0, 0, 0, 4]) = Inr (3 / 4)"
proof (intro conjI impI allI)
  assume h: "population m \<and> 0 < S \<and> wealths m = replicate i 0 @ S # replicate j 0"
  then show "compute_gini m = Inr (1 - 1 / real_of_int (num_agents m))"
    using gini_concentrated [of m S i j] by blast
  from h have "0 < num_agents m"
    by (simp add: population_def)
  then show "1 - 1 / real_of_int (num_agents m)
             = (real_of_int (num_agents m) - 1) / real_of_int (num_agents m)"
    by (simp add: field_simps)
next
  fix \<epsilon> :: real
  assume "0 < \<epsilon>"
  have "\<exists>g. compute_gini (snapshot (replicate i 0 @ S' # replicate j 0)) = Inr g \<and>
            \<bar>g - real (i + j) / real (i + j + 1)\<bar> < \<epsilon>" if "1 \<le> S'" for S'
  proof -
    let ?m = "snapshot (replicate i 0 @ S' # replicate j 0)"
    have "population ?m"
      using that by (auto simp: population_snapshot)
    moreover have "0 < S'" using that by simp
    moreover have "wealths ?m = replicate i 0 @ S' # replicate j 0"
      by (simp add: wealths_snapshot)
    ultimately have "compute_gini ?m = Inr (1 - 1 / real_of_int (num_agents ?m))"
      by (rule gini_concentrated)
    moreover have "1 - 1 / real_of_int (num_agents ?m) = real (i + j) / real (i + j + 1)"
      by (simp add: num_agents_snapshot field_simps)
    ultimately show ?thesis using \<open>0 < \<epsilon>\<close> by simp
  qed
  then show "\<exists>S0. \<forall>S'\<ge>S0. \<exists>g.
      compute_gini (snapshot (replicate i 0 @ S' # replicate j 0)) = Inr g \<and>
      \<bar>g - real (i + j) / real (i + j + 1)\<bar> < \<epsilon>"
    by blast
next
  show "compute_gini (snapshot [0, 0, 0, 4]) = Inr (3 / 4)"
    by (simp add: compute_gini_def snapshot_def gini_B_def py_truediv_def weighted_sum_def)
qed

theorem compute_gini_concentrated_witness:
  "population (snapshot [0, 7, 0]) \<and> (0::int) < 7 \<and>
   wealths (snapshot [0, 7, 0]) = replicate 1 0 @ 7 # replicate 1 0 \<and>
   compute_gini (snapshot [0, 7, 0]) = Inr (2 / 3)"
proof -
  have p: "population (snapshot [0, 7, 0])"
    by (simp add: population_snapshot)
  have w: "wealths (snapshot [0, 7, 0]) = replicate 1 0 @ 7 # replicate 1 0"
    by (simp add: wealths_snapshot)
  from p w compute_gini_concentrated [of "snapshot [0, 7, 0]" 7 1 1] show ?thesis
    by (simp add: num_agents_snapshot)
qed

text \<open>
  C6. Two inputs whose wealth values are permutations of each other (the same
  multiset of values, for the same number of agents) get the same result of
  \<^verbatim>\<open>compute_gini\<close>.
\<close>

theorem compute_gini_permutation:
  assumes "mset (wealths m) = mset (wealths m')" and "num_agents m = num_agents m'"
  shows "compute_gini m = compute_gini m'"
  using sort_cong_mset [OF assms(1)] assms(2)
  by (simp add: compute_gini_wealths split: sum.splits)

theorem compute_gini_permutation_witness:
  "mset (wealths (snapshot [3, 1, 2])) = mset (wealths (snapshot [1, 2, 3])) \<and>
   num_agents (snapshot [3, 1, 2]) = num_agents (snapshot [1, 2, 3]) \<and>
   compute_gini (snapshot [3, 1, 2]) = compute_gini (snapshot [1, 2, 3]) \<and>
   compute_gini (snapshot [3, 1, 2]) = Inr (2 / 9)"
proof -
  have a: "mset (wealths (snapshot [3, 1, 2])) = mset (wealths (snapshot [1, 2, 3]))"
    by (simp add: wealths_snapshot)
  have b: "num_agents (snapshot [3, 1, 2]) = num_agents (snapshot [1, 2, 3])"
    by (simp add: num_agents_snapshot)
  have "compute_gini (snapshot [1, 2, 3]) = Inr (2 / 9)"
    by (simp add: compute_gini_def snapshot_def gini_B_def py_truediv_def weighted_sum_def)
  with a b compute_gini_permutation [OF a b] show ?thesis by simp
qed

text \<open>
  C7. For every non-empty population with positive total wealth and every positive
  integer \<open>c\<close>, multiplying every wealth value by \<open>c\<close> leaves the score unchanged.
\<close>

theorem compute_gini_scale_invariant:
  assumes "population m" and "0 < total_wealth m" and "0 < c"
  shows "\<exists>g. compute_gini m = Inr g \<and> compute_gini (scale_wealth c m) = Inr g"
proof -
  from gini_bounds [OF assms(1,2)] obtain g where "compute_gini m = Inr g"
    by blast
  then show ?thesis
    using gini_scale [OF assms(3), of m] by simp
qed

theorem compute_gini_scale_invariant_witness:
  "population (snapshot [1, 0, 3]) \<and> 0 < total_wealth (snapshot [1, 0, 3]) \<and> (0::int) < 5 \<and>
   wealths (scale_wealth 5 (snapshot [1, 0, 3])) = [5, 0, 15] \<and>
   compute_gini (scale_wealth 5 (snapshot [1, 0, 3])) = compute_gini (snapshot [1, 0, 3])"
proof -
  have p: "population (snapshot [1, 0, 3])"
    by (simp add: population_snapshot)
  have t: "0 < total_wealth (snapshot [1, 0, 3])"
    by (simp add: total_wealth_snapshot)
  have "wealths (scale_wealth 5 (snapshot [1, 0, 3])) = [5, 0, 15]"
    by (simp add: wealths_scale wealths_snapshot)
  with p t compute_gini_scale_invariant [OF p t, of 5] show ?thesis
    by auto
qed


section \<open>Properties of the simulation\<close>

subsection \<open>Auxiliary facts\<close>

lemma agents_update_agent:
  "agents (update_agent i f m) = (agents m)[i := f (agents m ! i)]"
  by (simp add: update_agent_def)

lemma num_agents_update_agent: "num_agents (update_agent i f m) = num_agents m"
  by (simp add: update_agent_def)

lemma wealths_update_agent:
  "wealths (update_agent i f m) = (wealths m)[i := wealth (f (agents m ! i))]"
  by (simp add: wealths_def update_agent_def map_update)

lemma wealths_update_agent_same:
  assumes "\<And>a. wealth (f a) = wealth a"
  shows "wealths (update_agent i f m) = wealths m"
  unfolding wealths_update_agent assms
  by (simp add: wealths_def map_update [symmetric])

lemma length_wealths: "length (wealths m) = length (agents m)"
  by (simp add: wealths_def)

lemma cellmates_range:
  assumes "j \<in> set (cellmates m self)"
  shows "j < length (agents m)" and "j \<noteq> self"
  using assms by (auto simp: cellmates_def cell_agents_def)

lemma choice_in_set: "seq \<noteq> [] \<Longrightarrow> choice r seq \<in> set seq"
  by (simp add: choice_def)

text \<open>The wealth values after \<^verbatim>\<open>give_money\<close>.\<close>

lemma wealths_give_money:
  "wealths (give_money self r m) =
     (if length (cellmates m self) > 0 \<and> wealth (agents m ! self) > 0 then
        (wealths m)[choice r (cellmates m self) := wealth (agents m ! choice r (cellmates m self)) + 1,
                    self := wealth (agents m ! self) - 1]
      else wealths m)"
proof (cases "length (cellmates m self) > 0 \<and> wealth (agents m ! self) > 0")
  case True
  define other where "other = choice r (cellmates m self)"
  define m1 where "m1 = update_agent other (\<lambda>a. a\<lparr>wealth := wealth a + 1\<rparr>) m"
  define m2 where "m2 = update_agent self (\<lambda>a. a\<lparr>wealth := wealth a - 1\<rparr>) m1"
  from True have "other \<in> set (cellmates m self)"
    by (simp add: choice_in_set other_def)
  then have "other \<noteq> self"
    by (rule cellmates_range)
  then have self: "agents m1 ! self = agents m ! self"
    by (simp add: m1_def agents_update_agent)
  have "give_money self r m = update_agent self (\<lambda>a. a\<lparr>steps_not_given := 0\<rparr>) m2"
    using True by (simp add: give_money_def Let_def m2_def m1_def other_def)
  then have "wealths (give_money self r m) = wealths m2"
    by (simp add: wealths_update_agent_same)
  also have "\<dots> = (wealths m1)[self := wealth (agents m ! self) - 1]"
    by (simp add: m2_def wealths_update_agent self)
  also have "wealths m1 = (wealths m)[other := wealth (agents m ! other) + 1]"
    by (simp add: m1_def wealths_update_agent)
  finally show ?thesis
    using True by (simp add: other_def)
next
  case False
  then have "give_money self r m
             = update_agent self (\<lambda>a. a\<lparr>steps_not_given := steps_not_given a + 1\<rparr>) m"
    by (auto simp: give_money_def)
  then have "wealths (give_money self r m) = wealths m"
    by (simp add: wealths_update_agent_same)
  with False show ?thesis by auto
qed

lemma sum_list_update_int:
  "k < length xs \<Longrightarrow> sum_list (xs[k := x]) = sum_list xs + x - (xs ! k :: int)"
  by (induction xs arbitrary: k) (auto split: nat.splits)

lemma length_agents_give_money: "length (agents (give_money self r m)) = length (agents m)"
  by (simp add: give_money_def Let_def agents_update_agent)

lemma num_agents_give_money: "num_agents (give_money self r m) = num_agents m"
  by (simp add: give_money_def Let_def num_agents_update_agent)

lemma total_wealth_give_money:
  assumes "self < length (agents m)"
  shows "total_wealth (give_money self r m) = total_wealth m"
proof (cases "length (cellmates m self) > 0 \<and> wealth (agents m ! self) > 0")
  case True
  define other where "other = choice r (cellmates m self)"
  from True have "other \<in> set (cellmates m self)"
    by (simp add: choice_in_set other_def)
  then have other: "other < length (agents m)" "other \<noteq> self"
    by (rule cellmates_range)+
  have nth: "wealths m ! other = wealth (agents m ! other)" "wealths m ! self = wealth (agents m ! self)"
    using other(1) assms by (simp_all add: wealths_def)
  have "wealths (give_money self r m)
        = (wealths m)[other := wealths m ! other + 1, self := wealths m ! self - 1]"
    using True unfolding nth by (simp add: wealths_give_money other_def)
  then show ?thesis
    using other assms
    by (simp add: total_wealth_def sum_list_update_int length_wealths)
next
  case False
  then show ?thesis
    by (auto simp: total_wealth_def wealths_give_money)
qed

lemma nonneg_wealth_iff: "nonneg_wealth m \<longleftrightarrow> (\<forall>w\<in>set (wealths m). 0 \<le> w)"
  by (auto simp: nonneg_wealth_def wealths_def list_all_iff)

lemma nonneg_wealth_give_money:
  assumes "nonneg_wealth m"
  shows "nonneg_wealth (give_money self r m)"
proof (cases "length (cellmates m self) > 0 \<and> wealth (agents m ! self) > 0")
  case True
  define other where "other = choice r (cellmates m self)"
  from True have "other \<in> set (cellmates m self)"
    by (simp add: choice_in_set other_def)
  then have "other < length (agents m)"
    by (rule cellmates_range)
  then have "0 \<le> wealth (agents m ! other)"
    using assms by (simp add: nonneg_wealth_def list_all_length)
  have "set (wealths (give_money self r m))
        \<subseteq> insert (wealth (agents m ! self) - 1) (insert (wealth (agents m ! other) + 1) (set (wealths m)))"
    using True set_update_subset_insert [of "(wealths m)[other := wealth (agents m ! other) + 1]" self]
      set_update_subset_insert [of "wealths m" other]
    by (auto simp: wealths_give_money other_def)
  then show ?thesis
    using True assms \<open>0 \<le> wealth (agents m ! other)\<close>
    by (auto simp: nonneg_wealth_iff)
next
  case False
  then show ?thesis
    using assms by (auto simp: nonneg_wealth_iff wealths_give_money)
qed

lemma wealths_move: "wealths (move self c m) = wealths m"
  by (simp add: move_def wealths_update_agent_same)

lemma length_agents_move: "length (agents (move self c m)) = length (agents m)"
  by (simp add: move_def agents_update_agent)

lemma num_agents_move: "num_agents (move self c m) = num_agents m"
  by (simp add: move_def num_agents_update_agent)

lemma shuffle_do_move_frame:
  "wealths (shuffle_do_move rnd m) = wealths m \<and>
   length (agents (shuffle_do_move rnd m)) = length (agents m) \<and>
   num_agents (shuffle_do_move rnd m) = num_agents m"
proof -
  have "wealths (fold (\<lambda>i. move i (move_dest rnd i)) js m) = wealths m \<and>
        length (agents (fold (\<lambda>i. move i (move_dest rnd i)) js m)) = length (agents m) \<and>
        num_agents (fold (\<lambda>i. move i (move_dest rnd i)) js m) = num_agents m" for js
    by (induction js arbitrary: m) (simp_all add: wealths_move length_agents_move num_agents_move)
  then show ?thesis by (simp add: shuffle_do_move_def)
qed

lemma fold_give_money_frame:
  assumes "\<forall>i\<in>set js. i < length (agents m)"
  shows "total_wealth (fold (\<lambda>i. give_money i (give_draw rnd i)) js m) = total_wealth m \<and>
         length (agents (fold (\<lambda>i. give_money i (give_draw rnd i)) js m)) = length (agents m) \<and>
         num_agents (fold (\<lambda>i. give_money i (give_draw rnd i)) js m) = num_agents m \<and>
         (nonneg_wealth m \<longrightarrow> nonneg_wealth (fold (\<lambda>i. give_money i (give_draw rnd i)) js m))"
  using assms
proof (induction js arbitrary: m)
  case Nil
  then show ?case by simp
next
  case (Cons j js)
  let ?m = "give_money j (give_draw rnd j) m"
  have "\<forall>i\<in>set js. i < length (agents ?m)"
    using Cons.prems by (simp add: length_agents_give_money)
  from Cons.IH [OF this] Cons.prems show ?case
    by (simp add: total_wealth_give_money length_agents_give_money num_agents_give_money
        nonneg_wealth_give_money)
qed

lemma do_give_money_frame:
  "total_wealth (do_give_money rnd m) = total_wealth m \<and>
   length (agents (do_give_money rnd m)) = length (agents m) \<and>
   num_agents (do_give_money rnd m) = num_agents m \<and>
   (nonneg_wealth m \<longrightarrow> nonneg_wealth (do_give_money rnd m))"
  unfolding do_give_money_def by (rule fold_give_money_frame) simp

lemma collect_frame:
  assumes "collect m = Inr m1"
  shows "agents m1 = agents m" and "num_agents m1 = num_agents m"
  using assms by (auto simp: collect_def split: sum.splits)

lemma step_frame:
  assumes "step rnd m = Inr m'"
  shows "total_wealth m' = total_wealth m" and "length (agents m') = length (agents m)"
    and "num_agents m' = num_agents m" and "nonneg_wealth m \<Longrightarrow> nonneg_wealth m'"
proof -
  from assms obtain m1 where m1: "collect m = Inr m1"
    and m': "m' = do_give_money rnd (shuffle_do_move rnd m1)"
    by (auto simp: step_def split: sum.splits)
  have a: "agents m1 = agents m" "num_agents m1 = num_agents m"
    using collect_frame [OF m1] by simp_all
  then have w: "wealths m1 = wealths m"
    by (simp add: wealths_def)
  show "total_wealth m' = total_wealth m"
    using do_give_money_frame [of rnd "shuffle_do_move rnd m1"] shuffle_do_move_frame [of rnd m1] w
    by (simp add: m' total_wealth_def)
  show "length (agents m') = length (agents m)"
    using do_give_money_frame [of rnd "shuffle_do_move rnd m1"] shuffle_do_move_frame [of rnd m1] a
    by (simp add: m')
  show "num_agents m' = num_agents m"
    using do_give_money_frame [of rnd "shuffle_do_move rnd m1"] shuffle_do_move_frame [of rnd m1] a
    by (simp add: m')
  show "nonneg_wealth m'" if "nonneg_wealth m"
  proof -
    have "nonneg_wealth (shuffle_do_move rnd m1)"
      using that shuffle_do_move_frame [of rnd m1] w by (simp add: nonneg_wealth_iff)
    then show ?thesis
      using do_give_money_frame [of rnd "shuffle_do_move rnd m1"] by (simp add: m')
  qed
qed

lemma run_frame:
  assumes "run m rnds = Inr m'"
  shows "total_wealth m' = total_wealth m \<and> length (agents m') = length (agents m) \<and>
         num_agents m' = num_agents m \<and> (nonneg_wealth m \<longrightarrow> nonneg_wealth m')"
  using assms
proof (induction rnds arbitrary: m)
  case Nil
  then show ?case by simp
next
  case (Cons rnd rnds)
  then obtain m1 where m1: "step rnd m = Inr m1" and r: "run m1 rnds = Inr m'"
    by (auto split: sum.splits)
  from Cons.IH [OF r] step_frame [OF m1] show ?case by simp
qed

lemma wealths_MoneyModel: "wealths (MoneyModel n cells) = replicate (nat n) 1"
  by (simp add: MoneyModel_def MoneyAgent_def wealths_def comp_def map_replicate_const)

lemma total_wealth_MoneyModel: "total_wealth (MoneyModel n cells) = int (nat n)"
  by (simp add: total_wealth_def wealths_MoneyModel sum_list_replicate)

lemma nonneg_wealth_MoneyModel: "nonneg_wealth (MoneyModel n cells)"
  by (simp add: nonneg_wealth_iff wealths_MoneyModel)

lemma num_agents_MoneyModel: "num_agents (MoneyModel n cells) = n"
  by (simp add: MoneyModel_def)

lemma upt_3: "[0..<3] = [0, 1, 2]"
  by (simp add: upt_rec)

lemmas run_simps = MoneyModel_def MoneyAgent_def step_def collect_def compute_gini_def
  gini_B_def py_truediv_def weighted_sum_def shuffle_do_move_def do_give_money_def
  move_def give_money_def cellmates_def cell_agents_def choice_def update_agent_def upt_3 Let_def

lemma run_example:
  "run (MoneyModel 3 (\<lambda>i. (i div 2, 0))) [example_rand] = Inr example_final"
  by (simp add: example_rand_def example_final_def run_simps)

lemma run_example_apart:
  "run (MoneyModel 3 (\<lambda>i. (i div 2, 0))) [example_rand_apart] = Inr example_final_apart"
  by (simp add: example_rand_apart_def example_final_apart_def run_simps)

lemma run_state_compute_gini_exec: "run_state compute_gini_exec m = (compute_gini m, m)"
  by (simp add: compute_gini_exec_def compute_gini_def Let_def split: sum.splits)

lemma reachable_shape:
  assumes "run (MoneyModel n cells) rnds = Inr m"
  shows "num_agents m = n" and "length (agents m) = nat n"
proof -
  have "length (agents (MoneyModel n cells)) = nat n"
    by (simp add: MoneyModel_def)
  with run_frame [OF assms] show "num_agents m = n" and "length (agents m) = nat n"
    by (simp_all add: num_agents_MoneyModel)
qed

lemma gini_reachable_snapshot:
  assumes "run (MoneyModel n cells) rnds = Inr m"
    and "run (MoneyModel n' cells') rnds' = Inr m'"
    and "wealths m = wealths m'"
  shows "compute_gini m = compute_gini m'"
proof (cases "agents m = []")
  case True
  then have "wealths m = []" by (simp add: wealths_def)
  with assms(3) have "total_wealth m = 0" "total_wealth m' = 0"
    by (simp_all add: total_wealth_def)
  then show ?thesis by (simp add: gini_zero_total)
next
  case False
  have "length (agents m) = length (agents m')"
    using arg_cong [OF assms(3), of length] by (simp add: wealths_def)
  moreover from False have "0 < length (agents m)"
    by simp
  ultimately have "num_agents m = num_agents m'"
    using reachable_shape [OF assms(1)] reachable_shape [OF assms(2)] by linarith
  with assms(3) show ?thesis
    by (simp add: compute_gini_wealths split: sum.splits)
qed

text \<open>Every model that a run reaches from a newly created model of \<open>n \<ge> 1\<close> agents
  is a population with positive total wealth, as the statements about
  \<^verbatim>\<open>compute_gini\<close> assume of their input.\<close>

lemma population_reachable:
  assumes "1 \<le> n" and "run (MoneyModel n cells) rnds = Inr m'"
  shows "population m'" and "0 < total_wealth m'"
proof -
  have len: "length (agents (MoneyModel n cells)) = nat n"
    by (simp add: MoneyModel_def)
  from run_frame [OF assms(2)] assms(1)
  have "total_wealth m' = n" "length (agents m') = nat n" "num_agents m' = n" "nonneg_wealth m'"
    by (simp_all add: total_wealth_MoneyModel num_agents_MoneyModel nonneg_wealth_MoneyModel len)
  with assms(1) show "population m'" and "0 < total_wealth m'"
    by (auto simp: population_def nonneg_wealth_def)
qed

subsection \<open>The claims about the simulation\<close>

text \<open>
  C8. Total wealth is conserved: each \<^verbatim>\<open>give_money\<close> that transfers moves exactly one
  unit from the giving agent to another agent, \<^verbatim>\<open>give_money\<close> never changes the total,
  and after any sequence of model steps the total equals the total at
  initialisation.
\<close>

theorem total_wealth_conserved:
  "(self < length (agents m) \<and> 0 < length (cellmates m self) \<and> 0 < wealth (agents m ! self) \<longrightarrow>
      (\<exists>other. other < length (agents m) \<and> other \<noteq> self \<and>
         wealths (give_money self r m) =
           (wealths m)[other := wealths m ! other + 1, self := wealths m ! self - 1])) \<and>
   (self < length (agents m) \<longrightarrow> total_wealth (give_money self r m) = total_wealth m) \<and>
   (run m rnds = Inr m' \<longrightarrow> total_wealth m' = total_wealth m)"
proof (intro conjI impI)
  assume h: "self < length (agents m) \<and> 0 < length (cellmates m self) \<and> 0 < wealth (agents m ! self)"
  define other where "other = choice r (cellmates m self)"
  from h have "other \<in> set (cellmates m self)"
    by (simp add: choice_in_set other_def)
  then have other: "other < length (agents m)" "other \<noteq> self"
    by (rule cellmates_range)+
  have nth: "wealths m ! other = wealth (agents m ! other)" "wealths m ! self = wealth (agents m ! self)"
    using other(1) h by (simp_all add: wealths_def)
  have "wealths (give_money self r m)
        = (wealths m)[other := wealths m ! other + 1, self := wealths m ! self - 1]"
    using h unfolding nth by (simp add: wealths_give_money other_def)
  with other show "\<exists>other. other < length (agents m) \<and> other \<noteq> self \<and>
         wealths (give_money self r m) =
           (wealths m)[other := wealths m ! other + 1, self := wealths m ! self - 1]"
    by blast
next
  assume "self < length (agents m)"
  then show "total_wealth (give_money self r m) = total_wealth m"
    by (rule total_wealth_give_money)
next
  assume "run m rnds = Inr m'"
  from run_frame [OF this] show "total_wealth m' = total_wealth m"
    by simp
qed

theorem total_wealth_conserved_witness:
  "(0::nat) < length (agents (MoneyModel 3 (\<lambda>i. (i div 2, 0)))) \<and>
   0 < length (cellmates (MoneyModel 3 (\<lambda>i. (i div 2, 0))) 0) \<and>
   0 < wealth (agents (MoneyModel 3 (\<lambda>i. (i div 2, 0))) ! 0) \<and>
   run (MoneyModel 3 (\<lambda>i. (i div 2, 0))) [example_rand] = Inr example_final \<and>
   total_wealth (MoneyModel 3 (\<lambda>i. (i div 2, 0))) = 3 \<and>
   total_wealth (give_money 0 0 (MoneyModel 3 (\<lambda>i. (i div 2, 0)))) = 3 \<and>
   total_wealth example_final = 3"
proof -
  let ?m = "MoneyModel 3 (\<lambda>i. (i div 2, 0))"
  have a: "(0::nat) < length (agents ?m)"
    by (simp add: MoneyModel_def)
  have b: "0 < length (cellmates ?m 0)"
    by (simp add: run_simps)
  have c: "0 < wealth (agents ?m ! 0)"
    by (simp add: run_simps)
  have t: "total_wealth ?m = 3"
    by (simp add: total_wealth_MoneyModel)
  from a b c run_example t
    total_wealth_conserved [of 0 ?m 0 "[example_rand]" example_final]
  show ?thesis by simp
qed

text \<open>
  C9. \<^verbatim>\<open>compute_gini\<close> is a pure function of the wealth snapshot. Run as a computation
  on the state of the program, it returns the state it was called in, with every
  agent's wealth and all other model state as they were, and its result is the
  value of \<^verbatim>\<open>compute_gini\<close>; two calls in a row give the same result twice. In the
  states that the simulation reaches, the result is determined by the wealth values
  alone: two reached models with the same wealth values get the same result,
  whatever their cells, counters and collected data are.
\<close>

theorem compute_gini_pure:
  "run_state compute_gini_exec m = (compute_gini m, m) \<and>
   run_state (do { a \<leftarrow> compute_gini_exec; b \<leftarrow> compute_gini_exec; State_Monad.return (a, b) }) m
     = ((compute_gini m, compute_gini m), m) \<and>
   (run (MoneyModel n cells) rnds = Inr m \<and> run (MoneyModel n' cells') rnds' = Inr m' \<and>
    wealths m = wealths m' \<longrightarrow> compute_gini m = compute_gini m')"
proof (intro conjI impI)
  show "run_state compute_gini_exec m = (compute_gini m, m)"
    by (rule run_state_compute_gini_exec)
  show "run_state (do { a \<leftarrow> compute_gini_exec; b \<leftarrow> compute_gini_exec; State_Monad.return (a, b) }) m
     = ((compute_gini m, compute_gini m), m)"
    by (simp add: run_state_compute_gini_exec)
next
  assume "run (MoneyModel n cells) rnds = Inr m \<and> run (MoneyModel n' cells') rnds' = Inr m' \<and>
    wealths m = wealths m'"
  then show "compute_gini m = compute_gini m'"
    using gini_reachable_snapshot [of n cells rnds m n' cells' rnds' m'] by blast
qed

theorem compute_gini_pure_witness:
  "run (MoneyModel 3 (\<lambda>i. (i div 2, 0))) [] = Inr (MoneyModel 3 (\<lambda>i. (i div 2, 0))) \<and>
   run (MoneyModel 3 (\<lambda>i. (i div 2, 0))) [example_rand_apart] = Inr example_final_apart \<and>
   wealths (MoneyModel 3 (\<lambda>i. (i div 2, 0))) = wealths example_final_apart \<and>
   compute_gini (MoneyModel 3 (\<lambda>i. (i div 2, 0))) = Inr 0 \<and>
   compute_gini example_final_apart = Inr 0 \<and>
   run_state compute_gini_exec example_final_apart = (Inr 0, example_final_apart)"
proof -
  let ?m = "MoneyModel 3 (\<lambda>i. (i div 2, 0))"
  have a: "run ?m [] = Inr ?m"
    by simp
  have w: "wealths ?m = wealths example_final_apart"
    by (simp add: wealths_def example_final_apart_def MoneyModel_def MoneyAgent_def upt_3)
  have g: "compute_gini example_final_apart = Inr 0"
    by (simp add: example_final_apart_def compute_gini_def gini_B_def py_truediv_def weighted_sum_def)
  from compute_gini_pure [of example_final_apart 3 "\<lambda>i. (i div 2, 0)" "[example_rand_apart]"
      3 "\<lambda>i. (i div 2, 0)" "[]" ?m] a w g run_example_apart
  show ?thesis by simp
qed

text \<open>
  C10. No agent's wealth becomes negative: \<^verbatim>\<open>give_money\<close> and \<^verbatim>\<open>move\<close> keep all wealth
  values non-negative, \<^verbatim>\<open>give_money\<close> leaves every wealth as it is unless the giving
  agent has positive wealth and a cellmate, and every state reached by model steps
  from a state with non-negative wealth, in particular from a newly created model,
  has non-negative wealth.
\<close>

theorem wealth_never_negative:
  "(nonneg_wealth m \<longrightarrow> nonneg_wealth (give_money self r m) \<and> nonneg_wealth (move self c m)) \<and>
   (\<not> (0 < length (cellmates m self) \<and> 0 < wealth (agents m ! self)) \<longrightarrow>
      wealths (give_money self r m) = wealths m) \<and>
   (nonneg_wealth m \<and> run m rnds = Inr m' \<longrightarrow> nonneg_wealth m') \<and>
   (run (MoneyModel n cells) rnds = Inr m' \<longrightarrow> nonneg_wealth m')"
proof (intro conjI impI)
  assume "nonneg_wealth m"
  then show "nonneg_wealth (give_money self r m)"
    by (rule nonneg_wealth_give_money)
next
  assume "nonneg_wealth m"
  then show "nonneg_wealth (move self c m)"
    by (simp add: nonneg_wealth_iff wealths_move)
next
  assume "\<not> (0 < length (cellmates m self) \<and> 0 < wealth (agents m ! self))"
  then show "wealths (give_money self r m) = wealths m"
    by (auto simp: wealths_give_money)
next
  assume "nonneg_wealth m \<and> run m rnds = Inr m'"
  then show "nonneg_wealth m'"
    using run_frame [of m rnds m'] by blast
next
  assume "run (MoneyModel n cells) rnds = Inr m'"
  from run_frame [OF this] show "nonneg_wealth m'"
    by (simp add: nonneg_wealth_MoneyModel)
qed

theorem wealth_never_negative_witness:
  "nonneg_wealth (MoneyModel 3 (\<lambda>i. (i div 2, 0))) \<and>
   \<not> (0 < length (cellmates (MoneyModel 3 (\<lambda>i. (i div 2, 0))) 2) \<and>
      0 < wealth (agents (MoneyModel 3 (\<lambda>i. (i div 2, 0))) ! 2)) \<and>
   run (MoneyModel 3 (\<lambda>i. (i div 2, 0))) [example_rand] = Inr example_final \<and>
   nonneg_wealth example_final \<and>
   wealths (give_money 2 0 (MoneyModel 3 (\<lambda>i. (i div 2, 0)))) = [1, 1, 1]"
proof -
  let ?m = "MoneyModel 3 (\<lambda>i. (i div 2, 0))"
  have a: "nonneg_wealth ?m"
    by (rule nonneg_wealth_MoneyModel)
  have b: "\<not> (0 < length (cellmates ?m 2) \<and> 0 < wealth (agents ?m ! 2))"
    by (simp add: run_simps)
  have w: "wealths ?m = [1, 1, 1]"
    by (simp add: wealths_MoneyModel numeral_3_eq_3)
  from a b w run_example
    wealth_never_negative [of ?m 2 0 "(0, 0)" "[example_rand]" example_final 3 "\<lambda>i. (i div 2, 0)"]
  show ?thesis by simp
qed

end
